theory Spec2Isabelle
  imports Complex_Main "HOL-Library.AList" "HOL-Library.Sublist"
begin

text \<open>
  A model of the analysis engine of cpuprofile-to-md. \<open>parser.ts\<close> normalizes a V8 CPU
  profile (a node table, a sample sequence and the time deltas between samples);
  \<open>analyzer.ts\<close> computes self and total time per node, statistics per function, the
  hotspots, a call tree and its critical paths. Each function of the source is a
  definition of the same name; mutated structures are passed and returned, thrown errors
  are values, and the two recursions that follow child ids through the node map carry a
  bound on their depth (the call stack is taken to be unbounded).
\<close>

section \<open>Numbers\<close>

text \<open>
  Every number of the program is an IEEE double. The model reads a finite double as a
  real and computes exactly; node ids, line numbers and counts are integers. From finite
  inputs the analyzer can leave the finite numbers in two places only: adding an absent
  time delta (\<open>undefined\<close>) gives NaN, and the mean sample interval is an unguarded
  quotient. \<open>jsnum\<close> is the type of an accumulated self time (finite or NaN),
  \<open>jsquot\<close> the type of a quotient.
\<close>

datatype jsnum = Num real | NaN

datatype jsquot = Finite real | QNaN | PosInfinity | NegInfinity

text \<open>\<open>a + b\<close> where \<open>b\<close> was read from an array and is \<open>undefined\<close> out of range.\<close>

fun js_add_undef :: "real \<Rightarrow> real option \<Rightarrow> jsnum" where
  "js_add_undef a (Some b) = Num (a + b)"
| "js_add_undef a None = NaN"

text \<open>\<open>m.get(k) || 0\<close>: \<open>undefined\<close>, \<open>0\<close> and NaN are falsy.\<close>

fun or0 :: "jsnum option \<Rightarrow> real" where
  "or0 None = 0"
| "or0 (Some NaN) = 0"
| "or0 (Some (Num r)) = r"

fun or0r :: "real option \<Rightarrow> real" where
  "or0r None = 0"
| "or0r (Some r) = r"

fun or0n :: "nat option \<Rightarrow> nat" where
  "or0n None = 0"
| "or0n (Some n) = n"

text \<open>\<open>a / b\<close> on finite operands.\<close>

definition js_div :: "real \<Rightarrow> real \<Rightarrow> jsquot" where
  "js_div a b =
     (if b \<noteq> 0 then Finite (a / b)
      else if a = 0 then QNaN
      else if 0 < a then PosInfinity else NegInfinity)"

section \<open>Arrays and strings\<close>

text \<open>
  \<open>Array.prototype.sort\<close> with a comparator: the sort is stable, and the result for
  a consistent comparator is the stable ordering, computed here by insertion from the
  right. \<open>cmp a b \<le> 0\<close> keeps \<open>a\<close> before \<open>b\<close>.
\<close>

fun js_insert :: "('a \<Rightarrow> 'a \<Rightarrow> real) \<Rightarrow> 'a \<Rightarrow> 'a list \<Rightarrow> 'a list" where
  "js_insert cmp x [] = [x]"
| "js_insert cmp x (y # ys) =
     (if cmp x y \<le> 0 then x # y # ys else y # js_insert cmp x ys)"

definition js_sort :: "('a \<Rightarrow> 'a \<Rightarrow> real) \<Rightarrow> 'a list \<Rightarrow> 'a list" where
  "js_sort cmp xs = foldr (js_insert cmp) xs []"

text \<open>\<open>xs.slice(0, n)\<close>: a negative end counts from the end of the array.\<close>

definition js_slice0 :: "'a list \<Rightarrow> int \<Rightarrow> 'a list" where
  "js_slice0 xs n =
     (if n < 0 then take (nat (int (length xs) + n)) xs else take (nat n) xs)"

text \<open>\<open>s.startsWith(p)\<close> and \<open>s.includes(p)\<close>.\<close>

definition startsWith :: "string \<Rightarrow> string \<Rightarrow> bool" where
  "startsWith s p = (take (length p) s = p)"

fun includes_str :: "string \<Rightarrow> string \<Rightarrow> bool" where
  "includes_str [] p = (p = [])"
| "includes_str (c # cs) p = (startsWith (c # cs) p \<or> includes_str cs p)"

text \<open>Adding to a \<open>Set\<close>, which keeps insertion order.\<close>

definition set_add :: "'a \<Rightarrow> 'a list \<Rightarrow> 'a list" where
  "set_add x xs = (if x \<in> set xs then xs else xs @ [x])"

text \<open>Decimal rendering of an integer inside a template string.\<close>

fun show_nat :: "nat \<Rightarrow> string" where
  "show_nat n =
     (if n < 10 then [''0123456789'' ! n]
      else show_nat (n div 10) @ [''0123456789'' ! (n mod 10)])"

declare show_nat.simps [simp del]

definition show_int :: "int \<Rightarrow> string" where
  "show_int i = (if i < 0 then CHR ''-'' # show_nat (nat (- i)) else show_nat (nat i))"

section \<open>Data model (types.ts)\<close>

record V8CpuProfileCallFrame =
  functionName :: string
  scriptId :: string
  url :: string
  lineNumber :: int
  columnNumber :: int

record V8CpuProfileNode =
  nid :: int
  callFrame :: V8CpuProfileCallFrame
  hitCount :: "int option"
  children :: "int list option"
  parent :: "int option"

record V8CpuProfile =
  startTime :: real
  endTime :: real
  nodes :: "V8CpuProfileNode list"
  samples :: "int list"
  timeDeltas :: "real list"

record FunctionStats =
  fs_key :: string
  fs_name :: string
  fs_url :: string
  fs_line :: int
  fs_column :: int
  fs_selfTime :: real
  fs_totalTime :: real
  fs_selfPercent :: real
  fs_totalPercent :: real
  fs_hitCount :: nat
  fs_callers :: "string list"
  fs_callees :: "string list"

datatype hotspot_type = Native | App | Unknown

record Hotspot = FunctionStats +
  hs_type :: hotspot_type

datatype CallTreeNode =
  CallTreeNode (ct_name: string) (ct_url: string) (ct_line: int)
    (ct_selfTime: real) (ct_totalTime: real)
    (ct_selfPercent: real) (ct_totalPercent: real)
    (ct_children: "CallTreeNode list")

record PathNode =
  pn_name :: string
  pn_selfPercent :: real
  pn_totalPercent :: real

record CriticalPath =
  cp_path :: "PathNode list"
  cumulativePercent :: real

record AnalysisResult =
  totalTime :: real
  totalSamples :: nat
  sampleInterval :: jsquot
  functionStats :: "(string \<times> FunctionStats) list"
  callTree :: CallTreeNode
  hotspots :: "Hotspot list"
  criticalPaths :: "CriticalPath list"
  ar_startTime :: real
  ar_endTime :: real

record AnalyzeOptions =
  hotspotThreshold :: "real option"
  maxHotspots :: "int option"
  maxPaths :: "int option"

datatype error = TypeError

section \<open>Hotspot ranking (analyzer.ts)\<close>

definition determineHotspotType :: "string \<Rightarrow> string \<Rightarrow> hotspot_type" where
  "determineHotspotType u name =
     (if u = [] \<or> u = '''' \<or> startsWith u ''native '' \<or> includes_str u ''(native)''
        then Native
      else if includes_str u ''node_modules'' \<or> includes_str u ''internal/'' then Native
      else if startsWith u ''http://'' \<or> startsWith u ''https://''
              \<or> startsWith u ''file://'' then App
      else if includes_str u ''/'' \<or> includes_str u [CHR 0x5C] then App
      else Unknown)"

definition toHotspot :: "FunctionStats \<Rightarrow> Hotspot" where
  "toHotspot stats = FunctionStats.extend stats
     (Hotspot.fields (determineHotspotType (fs_url stats) (fs_name stats)))"

definition extractHotspots ::
  "(string \<times> FunctionStats) list \<Rightarrow> real \<Rightarrow> int \<Rightarrow> Hotspot list" where
  "extractHotspots fstats threshold maxCount =
     map toHotspot
       (js_slice0
          (js_sort (\<lambda>a b. fs_selfTime b - fs_selfTime a)
             (filter (\<lambda>stats. fs_selfPercent stats \<ge> threshold) (map snd fstats)))
          maxCount)"

section \<open>Critical paths (analyzer.ts)\<close>

definition pathNode :: "CallTreeNode \<Rightarrow> PathNode" where
  "pathNode node =
     \<lparr>pn_name = ct_name node, pn_selfPercent = ct_selfPercent node,
      pn_totalPercent = ct_totalPercent node\<rparr>"

text \<open>The inner function \<open>traverse\<close>; the array \<open>paths\<close> it pushes to is passed and returned.\<close>

fun traverse :: "CallTreeNode \<Rightarrow> PathNode list \<Rightarrow> CriticalPath list \<Rightarrow> CriticalPath list"
  and traverse_children ::
    "CallTreeNode list \<Rightarrow> PathNode list \<Rightarrow> CriticalPath list \<Rightarrow> CriticalPath list"
where
  "traverse (CallTreeNode n u l st tt sp tp cs) path paths =
     (let currentPath = path @ [pathNode (CallTreeNode n u l st tt sp tp cs)] in
      if length cs = 0
      then paths @ [\<lparr>cp_path = currentPath,
                      cumulativePercent =
                        foldl (\<lambda>sum p. sum + pn_selfPercent p) 0 currentPath\<rparr>]
      else traverse_children cs currentPath paths)"
| "traverse_children [] path paths = paths"
| "traverse_children (c # cs) path paths =
     traverse_children cs path (traverse c path paths)"

definition findCriticalPaths :: "CallTreeNode \<Rightarrow> int \<Rightarrow> CriticalPath list" where
  "findCriticalPaths tree maxP =
     js_slice0
       (js_sort (\<lambda>a b. cumulativePercent b - cumulativePercent a) (traverse tree [] []))
       maxP"

section \<open>Time attribution (analyzer.ts)\<close>

type_synonym nodeMap = "int \<rightharpoonup> V8CpuProfileNode"
type_synonym selfTimeMap = "int \<rightharpoonup> jsnum"
type_synonym hitCountMap = "int \<rightharpoonup> nat"
type_synonym totalTimeMap = "int \<rightharpoonup> real"

definition buildNodeMap :: "V8CpuProfileNode list \<Rightarrow> nodeMap" where
  "buildNodeMap ns = foldl (\<lambda>m node. m(nid node \<mapsto> node)) Map.empty ns"

text \<open>
  The loop over the sample positions. The list of deltas is the part of
  \<open>profile.timeDeltas\<close> from the current index on; once it is exhausted the read
  gives \<open>undefined\<close>.
\<close>

fun attribute ::
  "int list \<Rightarrow> real list \<Rightarrow> selfTimeMap \<times> hitCountMap \<Rightarrow> selfTimeMap \<times> hitCountMap"
where
  "attribute [] ds st = st"
| "attribute (nodeId # ss) ds (selfM, hitM) =
     (let timeDelta = (case ds of [] \<Rightarrow> None | d # _ \<Rightarrow> Some d) in
      attribute ss (tl ds)
        (selfM(nodeId \<mapsto> js_add_undef (or0 (selfM nodeId)) timeDelta),
         hitM(nodeId \<mapsto> or0n (hitM nodeId) + 1)))"

definition sumDeltas :: "real list \<Rightarrow> real" where
  "sumDeltas ds = foldl (\<lambda>sum delta. sum + delta) 0 ds"

text \<open>
  \<open>computeNodeTotalTime\<close> with the two structures it mutates, \<open>totalTimeMap\<close> and
  \<open>visited\<close>, passed and returned. The first argument bounds the depth of the
  recursion; \<open>None\<close> means the bound was reached.
\<close>

fun computeNodeTotalTime ::
  "nat \<Rightarrow> nodeMap \<Rightarrow> selfTimeMap \<Rightarrow> int \<Rightarrow> totalTimeMap \<times> int set
     \<Rightarrow> (real \<times> totalTimeMap \<times> int set) option"
  and sumChildren ::
  "nat \<Rightarrow> nodeMap \<Rightarrow> selfTimeMap \<Rightarrow> int list \<Rightarrow> real \<Rightarrow> totalTimeMap \<times> int set
     \<Rightarrow> (real \<times> totalTimeMap \<times> int set) option"
where
  "computeNodeTotalTime 0 nm selfM nodeId st = None"
| "computeNodeTotalTime (Suc fuel) nm selfM nodeId (totalM, visited) =
     (if nodeId \<in> visited then Some (or0r (totalM nodeId), totalM, visited)
      else
        (case nm nodeId of
           None \<Rightarrow> Some (0, totalM, insert nodeId visited)
         | Some node \<Rightarrow>
             (case sumChildren fuel nm selfM
                     (case children node of None \<Rightarrow> [] | Some cs \<Rightarrow> cs)
                     (or0 (selfM nodeId)) (totalM, insert nodeId visited) of
                None \<Rightarrow> None
              | Some (tot, totalM', visited') \<Rightarrow>
                  Some (tot, totalM'(nodeId \<mapsto> tot), visited'))))"
| "sumChildren fuel nm selfM [] tot st = Some (tot, st)"
| "sumChildren fuel nm selfM (childId # cs) tot st =
     (case computeNodeTotalTime fuel nm selfM childId st of
        None \<Rightarrow> None
      | Some (t, st') \<Rightarrow> sumChildren fuel nm selfM cs (tot + t) st')"

fun computeAll ::
  "nat \<Rightarrow> nodeMap \<Rightarrow> selfTimeMap \<Rightarrow> V8CpuProfileNode list \<Rightarrow> totalTimeMap \<times> int set
     \<Rightarrow> (totalTimeMap \<times> int set) option"
where
  "computeAll fuel nm selfM [] st = Some st"
| "computeAll fuel nm selfM (node # ns) st =
     (case computeNodeTotalTime fuel nm selfM (nid node) st of
        None \<Rightarrow> None
      | Some (t, st') \<Rightarrow> computeAll fuel nm selfM ns st')"

definition computeTotalTime ::
  "nat \<Rightarrow> V8CpuProfileNode list \<Rightarrow> nodeMap \<Rightarrow> selfTimeMap \<Rightarrow> totalTimeMap option" where
  "computeTotalTime fuel ns nm selfM =
     map_option fst (computeAll fuel nm selfM ns (Map.empty, {}))"

section \<open>Function aggregation (analyzer.ts)\<close>

text \<open>
  A \<open>Map\<close> that is iterated is an association list in insertion order:
  \<open>map_of\<close> reads it, \<open>AList.update\<close> replaces a value in place or appends a
  new key, as \<open>Map.prototype.set\<close> does.
\<close>

definition keyOf :: "V8CpuProfileCallFrame \<Rightarrow> string" where
  "keyOf cf =
     functionName cf @ ''@'' @ url cf @ '':'' @ show_int (lineNumber cf)
       @ '':'' @ show_int (columnNumber cf)"

definition freshStats :: "string \<Rightarrow> V8CpuProfileCallFrame \<Rightarrow> FunctionStats" where
  "freshStats key cf =
     \<lparr>fs_key = key, fs_name = functionName cf, fs_url = url cf,
      fs_line = lineNumber cf, fs_column = columnNumber cf,
      fs_selfTime = 0, fs_totalTime = 0, fs_selfPercent = 0, fs_totalPercent = 0,
      fs_hitCount = 0, fs_callers = [], fs_callees = []\<rparr>"

definition addCallees :: "nodeMap \<Rightarrow> int list \<Rightarrow> string list \<Rightarrow> string list" where
  "addCallees nm cs callees =
     foldl (\<lambda>acc childId.
              case nm childId of
                None \<Rightarrow> acc
              | Some childNode \<Rightarrow> set_add (keyOf (callFrame childNode)) acc)
       callees cs"

definition aggregateStep ::
  "selfTimeMap \<Rightarrow> totalTimeMap \<Rightarrow> hitCountMap \<Rightarrow> nodeMap
     \<Rightarrow> (string \<times> FunctionStats) list \<Rightarrow> V8CpuProfileNode
     \<Rightarrow> (string \<times> FunctionStats) list" where
  "aggregateStep selfM totalM hitM nm statsMap node =
     (let key = keyOf (callFrame node);
          selfTime = or0 (selfM (nid node));
          totalTimeValue = or0r (totalM (nid node));
          hit = or0n (hitM (nid node));
          stats = (case map_of statsMap key of
                     None \<Rightarrow> freshStats key (callFrame node)
                   | Some s \<Rightarrow> s);
          callers' =
            (case parent node of
               None \<Rightarrow> fs_callers stats
             | Some pid \<Rightarrow>
                 (case nm pid of
                    None \<Rightarrow> fs_callers stats
                  | Some parentNode \<Rightarrow>
                      set_add (keyOf (callFrame parentNode)) (fs_callers stats)));
          callees' =
            (case children node of
               None \<Rightarrow> fs_callees stats
             | Some cs \<Rightarrow> addCallees nm cs (fs_callees stats))
      in AList.update key
           (stats\<lparr>fs_selfTime := fs_selfTime stats + selfTime,
                  fs_totalTime := fs_totalTime stats + totalTimeValue,
                  fs_hitCount := fs_hitCount stats + hit,
                  fs_callers := callers',
                  fs_callees := callees'\<rparr>)
           statsMap)"

definition setPercent :: "real \<Rightarrow> FunctionStats \<Rightarrow> FunctionStats" where
  "setPercent totalT stats =
     stats\<lparr>fs_selfPercent := (if totalT > 0 then fs_selfTime stats / totalT * 100 else 0),
            fs_totalPercent := (if totalT > 0 then fs_totalTime stats / totalT * 100 else 0)\<rparr>"

definition aggregateFunctionStats ::
  "V8CpuProfileNode list \<Rightarrow> selfTimeMap \<Rightarrow> totalTimeMap \<Rightarrow> hitCountMap \<Rightarrow> real
     \<Rightarrow> nodeMap \<Rightarrow> (string \<times> FunctionStats) list" where
  "aggregateFunctionStats ns selfM totalM hitM totalT nm =
     map (\<lambda>(k, stats). (k, setPercent totalT stats))
       (foldl (aggregateStep selfM totalM hitM nm) [] ns)"

section \<open>Call tree (analyzer.ts)\<close>

text \<open>
  \<open>xs.map(f)\<close> for an \<open>f\<close> that may throw or not return: the first element that
  does so ends the whole call.
\<close>

fun mapResult :: "('a \<Rightarrow> (error + 'b) option) \<Rightarrow> 'a list \<Rightarrow> (error + 'b list) option" where
  "mapResult f [] = Some (Inr [])"
| "mapResult f (x # xs) =
     (case f x of
        None \<Rightarrow> None
      | Some (Inl e) \<Rightarrow> Some (Inl e)
      | Some (Inr y) \<Rightarrow>
          (case mapResult f xs of
             None \<Rightarrow> None
           | Some (Inl e) \<Rightarrow> Some (Inl e)
           | Some (Inr ys) \<Rightarrow> Some (Inr (y # ys))))"

text \<open>
  \<open>buildNode\<close> follows the child ids through the node map and has no guard against a
  cycle. The first argument bounds the depth of the recursion; \<open>None\<close> means the bound
  was reached. Reading \<open>callFrame\<close> of a node that is not in the map is a TypeError.
\<close>

fun buildNode ::
  "nat \<Rightarrow> nodeMap \<Rightarrow> selfTimeMap \<Rightarrow> totalTimeMap \<Rightarrow> real \<Rightarrow> int
     \<Rightarrow> (error + CallTreeNode) option" where
  "buildNode 0 nm selfM totalM totalT nodeId = None"
| "buildNode (Suc fuel) nm selfM totalM totalT nodeId =
     (case nm nodeId of
        None \<Rightarrow> Some (Inl TypeError)
      | Some node \<Rightarrow>
          (let selfTime = or0 (selfM nodeId);
               totalTimeValue = or0r (totalM nodeId);
               mk = CallTreeNode (functionName (callFrame node)) (url (callFrame node))
                      (lineNumber (callFrame node)) selfTime totalTimeValue
                      (if totalT > 0 then selfTime / totalT * 100 else 0)
                      (if totalT > 0 then totalTimeValue / totalT * 100 else 0)
           in case children node of
                None \<Rightarrow> Some (Inr (mk []))
              | Some cs \<Rightarrow>
                  (case mapResult (\<lambda>c. buildNode fuel nm selfM totalM totalT c) cs of
                     None \<Rightarrow> None
                   | Some (Inl e) \<Rightarrow> Some (Inl e)
                   | Some (Inr kids) \<Rightarrow>
                       Some (Inr (mk (js_sort (\<lambda>a b. ct_totalTime b - ct_totalTime a)
                                        kids))))))"

section \<open>analyzeProfile (analyzer.ts)\<close>

definition analyzeProfile ::
  "nat \<Rightarrow> V8CpuProfile \<Rightarrow> AnalyzeOptions \<Rightarrow> (error + AnalysisResult) option" where
  "analyzeProfile fuel profile opts =
     (let threshold = (case hotspotThreshold opts of None \<Rightarrow> 1.0 | Some t \<Rightarrow> t);
          maxH = (case maxHotspots opts of None \<Rightarrow> 20 | Some m \<Rightarrow> m);
          maxP = (case maxPaths opts of None \<Rightarrow> 5 | Some m \<Rightarrow> m);
          nm = buildNodeMap (nodes profile);
          maps = attribute (samples profile) (timeDeltas profile) (Map.empty, Map.empty);
          selfM = fst maps;
          hitM = snd maps;
          totalT = sumDeltas (timeDeltas profile);
          nSamples = length (samples profile);
          interval = js_div totalT (real nSamples)
      in case computeTotalTime fuel (nodes profile) nm selfM of
           None \<Rightarrow> None
         | Some totalM \<Rightarrow>
             (let fstats = aggregateFunctionStats (nodes profile) selfM totalM hitM totalT nm
              in case nodes profile of
                   [] \<Rightarrow> Some (Inl TypeError)
                 | rootNode # _ \<Rightarrow>
                     (case buildNode fuel nm selfM totalM totalT (nid rootNode) of
                        None \<Rightarrow> None
                      | Some (Inl e) \<Rightarrow> Some (Inl e)
                      | Some (Inr tree) \<Rightarrow>
                          Some (Inr \<lparr>totalTime = totalT, totalSamples = nSamples,
                                     sampleInterval = interval, functionStats = fstats,
                                     callTree = tree,
                                     hotspots = extractHotspots fstats threshold maxH,
                                     criticalPaths = findCriticalPaths tree maxP,
                                     ar_startTime = startTime profile,
                                     ar_endTime = endTime profile\<rparr>))))"

section \<open>Normalizing the node table (parser.ts)\<close>

text \<open>
  A record of the legacy nested format. An absent \<open>children\<close> field and an empty one
  are treated alike by \<open>linearizeHeadBasedTree\<close>, so the field is a list.
\<close>

datatype HeadNode =
  HeadNode (h_callFrame: "V8CpuProfileCallFrame option") (h_functionName: "string option")
    (h_url: "string option") (h_lineNumber: "int option") (h_columnNumber: "int option")
    (h_hitCount: "int option") (h_children: "HeadNode list")

text \<open>
  The inner function \<open>traverse\<close> of \<open>linearizeHeadBasedTree\<close>, with the array
  \<open>nodes\<close> and the counter \<open>nextId\<close> passed and returned. The node is pushed after
  its children have been traversed.
\<close>

fun lin_traverse ::
  "HeadNode \<Rightarrow> int option \<Rightarrow> V8CpuProfileNode list \<times> int
     \<Rightarrow> int \<times> V8CpuProfileNode list \<times> int"
  and lin_children ::
  "HeadNode list \<Rightarrow> int \<Rightarrow> V8CpuProfileNode list \<times> int
     \<Rightarrow> int list \<times> V8CpuProfileNode list \<times> int"
where
  "lin_traverse (HeadNode cf fn u lno cno hc cs) parentId (ns, nextId) =
     (case lin_children cs nextId (ns, nextId + 1) of
        (childIds, ns', nextId') \<Rightarrow>
          (nextId,
           ns' @ [\<lparr>nid = nextId,
                    callFrame =
                      (case cf of
                         Some c \<Rightarrow> c
                       | None \<Rightarrow>
                           \<lparr>functionName =
                              (case fn of None \<Rightarrow> ''(unknown)''
                               | Some n \<Rightarrow> if n = [] then ''(unknown)'' else n),
                            scriptId = ''0'',
                            url = (case u of None \<Rightarrow> [] | Some v \<Rightarrow> v),
                            lineNumber = (case lno of None \<Rightarrow> 0 | Some v \<Rightarrow> v),
                            columnNumber = (case cno of None \<Rightarrow> 0 | Some v \<Rightarrow> v)\<rparr>),
                    hitCount = Some (case hc of None \<Rightarrow> 0 | Some h \<Rightarrow> h),
                    children = Some childIds,
                    parent = parentId\<rparr>],
           nextId'))"
| "lin_children [] pid st = ([], st)"
| "lin_children (c # cs) pid st =
     (case lin_traverse c (Some pid) st of
        (i, st') \<Rightarrow>
          (case lin_children cs pid st' of (ids, st'') \<Rightarrow> (i # ids, st'')))"

definition linearizeHeadBasedTree :: "HeadNode \<Rightarrow> V8CpuProfileNode list" where
  "linearizeHeadBasedTree head = fst (snd (lin_traverse head None ([], 1)))"

definition dedupe :: "'a list \<Rightarrow> 'a list" where
  "dedupe xs = foldl (\<lambda>acc x. set_add x acc) [] xs"

definition childrenOf :: "V8CpuProfileNode \<Rightarrow> int list" where
  "childrenOf node = (case children node of None \<Rightarrow> [] | Some cs \<Rightarrow> cs)"

definition rebuildChildrenFromParent :: "V8CpuProfileNode list \<Rightarrow> V8CpuProfileNode list" where
  "rebuildChildrenFromParent ns =
     (let pass1 = foldl (\<lambda>m node. AList.update (nid node) (node\<lparr>children := Some []\<rparr>) m)
                    [] ns;
          pass2 = foldl (\<lambda>m node.
                     case parent node of
                       None \<Rightarrow> m
                     | Some pid \<Rightarrow>
                         (case map_of m pid of
                            None \<Rightarrow> m
                          | Some p \<Rightarrow>
                              if nid node \<in> set (childrenOf p) then m
                              else AList.update pid
                                     (p\<lparr>children := Some (childrenOf p @ [nid node])\<rparr>) m))
                    pass1 ns;
          pass3 = foldl (\<lambda>m node.
                     case map_of m (nid node) of
                       None \<Rightarrow> m
                     | Some rebuilt \<Rightarrow>
                         (case children node of
                            None \<Rightarrow> m
                          | Some cs \<Rightarrow>
                              if length cs > 0
                              then AList.update (nid node)
                                     (rebuilt\<lparr>children :=
                                                Some (dedupe (childrenOf rebuilt @ cs))\<rparr>) m
                              else m))
                    pass2 ns
      in map snd pass3)"

section \<open>Unwrapping and validation (parser.ts)\<close>

text \<open>
  \<open>parseProfile\<close> up to the end of its validation, on the value \<open>JSON.parse\<close>
  returned (\<open>None\<close> when it threw). Reading the file, gunzip and the JSON grammar are
  outside the model. A parsed object lists each key once; \<open>undefined\<close> is \<open>None\<close>.
\<close>

datatype json =
  JNull | JBool bool | JNum real | JStr string | JArr "json list"
  | JObj "(string \<times> json) list"











text \<open>
  Whether \<open>linearizeHeadBasedTree\<close> returns on a JSON value: its \<open>traverse\<close> reads
  \<open>node.callFrame\<close>, which throws when a record in a \<open>children\<close> array is
  \<open>null\<close>.
\<close>

fun headOk :: "json \<Rightarrow> bool"
  and headFieldsOk :: "(string \<times> json) list \<Rightarrow> bool"
  and headsOk :: "json list \<Rightarrow> bool"
where
  "headOk JNull = False"
| "headOk (JObj kvs) = headFieldsOk kvs"
| "headOk (JBool b) = True"
| "headOk (JNum r) = True"
| "headOk (JStr s) = True"
| "headOk (JArr xs) = True"
| "headFieldsOk [] = True"
| "headFieldsOk (kv # kvs) =
     (if fst kv = ''children''
      then (case snd kv of JArr cs \<Rightarrow> headsOk cs | _ \<Rightarrow> True)
      else headFieldsOk kvs)"
| "headsOk [] = True"
| "headsOk (c # cs) = (headOk c \<and> headsOk cs)"





text \<open>
  The rest of \<open>parseProfile\<close> on typed tables: the node table goes through
  \<open>rebuildChildrenFromParent\<close>; a legacy record is linearized first.
\<close>

definition normalizeNodes ::
  "V8CpuProfileNode list \<Rightarrow> int list \<Rightarrow> real list \<Rightarrow> real option \<Rightarrow> real option
     \<Rightarrow> V8CpuProfile" where
  "normalizeNodes ns ss ds st et =
     \<lparr>startTime = (case st of None \<Rightarrow> 0 | Some t \<Rightarrow> t),
      endTime = (case et of None \<Rightarrow> 0 | Some t \<Rightarrow> t),
      nodes = rebuildChildrenFromParent ns, samples = ss, timeDeltas = ds\<rparr>"

definition normalizeHead ::
  "HeadNode \<Rightarrow> int list \<Rightarrow> real list \<Rightarrow> real option \<Rightarrow> real option \<Rightarrow> V8CpuProfile" where
  "normalizeHead head ss ds st et = normalizeNodes (linearizeHeadBasedTree head) ss ds st et"

section \<open>Notions used to state the properties\<close>






text \<open>The options of \<open>analyzeProfile\<close> with their defaults, and the two maps its first loop fills.\<close>

definition thresholdOf :: "AnalyzeOptions \<Rightarrow> real" where
  "thresholdOf opts = (case hotspotThreshold opts of None \<Rightarrow> 1.0 | Some t \<Rightarrow> t)"

definition maxHotspotsOf :: "AnalyzeOptions \<Rightarrow> int" where
  "maxHotspotsOf opts = (case maxHotspots opts of None \<Rightarrow> 20 | Some m \<Rightarrow> m)"

definition selfTimes :: "V8CpuProfile \<Rightarrow> selfTimeMap" where
  "selfTimes p = fst (attribute (samples p) (timeDeltas p) (Map.empty, Map.empty))"

definition hitCounts :: "V8CpuProfile \<Rightarrow> hitCountMap" where
  "hitCounts p = snd (attribute (samples p) (timeDeltas p) (Map.empty, Map.empty))"

text \<open>
  The profile of the scenario of the specification: a root with children A and C, B
  below A, and 55 units of sample time.
\<close>

definition ex_frame :: "string \<Rightarrow> V8CpuProfileCallFrame" where
  "ex_frame n = \<lparr>functionName = n, scriptId = ''1'', url = ''app.js'', lineNumber = 1,
                 columnNumber = 0\<rparr>"

definition ex_node :: "int \<Rightarrow> string \<Rightarrow> int list \<Rightarrow> int option \<Rightarrow> V8CpuProfileNode" where
  "ex_node i n cs par =
     \<lparr>nid = i, callFrame = ex_frame n, hitCount = None, children = Some cs, parent = par\<rparr>"

definition ex_profile :: V8CpuProfile where
  "ex_profile =
     \<lparr>startTime = 0, endTime = 55,
      nodes = [ex_node 1 ''(root)'' [2, 4] None, ex_node 2 ''A'' [3] (Some 1),
               ex_node 3 ''B'' [] (Some 2), ex_node 4 ''C'' [] (Some 1)],
      samples = [2, 3, 4, 2, 4], timeDeltas = [10, 20, 3, 20, 2]\<rparr>"

definition ex_opts :: "real option \<Rightarrow> AnalyzeOptions" where
  "ex_opts t = \<lparr>hotspotThreshold = t, maxHotspots = None, maxPaths = None\<rparr>"

text \<open>
  Notions for the total-time traversal. A state is the pair of \<open>totalTimeMap\<close> and
  \<open>visited\<close>. A step only adds visited ids, and adds an entry exactly for the newly
  visited ids that are in the node map.
\<close>

definition step_ok :: "nodeMap \<Rightarrow> totalTimeMap \<times> int set \<Rightarrow> totalTimeMap \<times> int set \<Rightarrow> bool" where
  "step_ok nm st st' \<longleftrightarrow>
     snd st \<subseteq> snd st' \<and> dom (fst st') = dom (fst st) \<union> ((snd st' - snd st) \<inter> dom nm)"

text \<open>The child ids of a node id, empty for an id that is not in the map.\<close>

definition kids :: "nodeMap \<Rightarrow> int \<Rightarrow> int list" where
  "kids nm i = (case nm i of None \<Rightarrow> [] | Some node \<Rightarrow> childrenOf node)"







text \<open>A malformed table: a cycle, a self loop, a shared child and a dangling child id.\<close>

definition ex_cyclic :: "V8CpuProfileNode list" where
  "ex_cyclic = [ex_node 1 ''a'' [2, 3] None, ex_node 2 ''b'' [1, 2, 3] (Some 1),
                ex_node 3 ''c'' [7] (Some 2)]"

text \<open>
  A legacy record with one child and the flat table of the same tree, an empty profile,
  and a JSON profile without samples.
\<close>

definition ex_head :: HeadNode where
  "ex_head = HeadNode None (Some ''(root)'') None None None None
               [HeadNode None (Some ''A'') (Some ''app.js'') (Some 1) None None []]"

definition ex_flat :: "V8CpuProfileNode list" where
  "ex_flat =
     [\<lparr>nid = 1,
       callFrame = \<lparr>functionName = ''(root)'', scriptId = ''0'', url = [], lineNumber = 0,
                    columnNumber = 0\<rparr>,
       hitCount = Some 0, children = Some [2], parent = None\<rparr>,
      \<lparr>nid = 2,
       callFrame = \<lparr>functionName = ''A'', scriptId = ''0'', url = ''app.js'', lineNumber = 1,
                    columnNumber = 0\<rparr>,
       hitCount = Some 0, children = Some [], parent = Some 1\<rparr>]"

definition ex_empty :: V8CpuProfile where
  "ex_empty = ex_profile\<lparr>samples := [], timeDeltas := []\<rparr>"


section \<open>Properties\<close>

subsection \<open>Sorting and slicing\<close>

lemma js_insert_desc: "js_insert (\<lambda>a b. key b - key a) x ys = insort_key (\<lambda>x. - key x) x ys"
  by (induction ys) auto

lemma js_sort_desc: "js_sort (\<lambda>a b. key b - key a) xs = sort_key (\<lambda>x. - key x) xs"
  unfolding js_sort_def sort_key_def by (induction xs) (auto simp: js_insert_desc)

lemma set_js_slice0: "set (js_slice0 xs n) \<subseteq> set xs"
  by (auto simp: js_slice0_def dest: in_set_takeD)

lemma length_js_slice0: "0 \<le> n \<Longrightarrow> int (length (js_slice0 xs n)) \<le> n"
  by (simp add: js_slice0_def)

lemma prefix_js_slice0: "prefix (js_slice0 xs n) xs"
  by (simp add: js_slice0_def take_is_prefix)

lemma sorted_wrt_js_slice0: "sorted_wrt P xs \<Longrightarrow> sorted_wrt P (js_slice0 xs n)"
  by (simp add: js_slice0_def)

lemma sorted_desc_js_sort:
  "sorted_wrt (\<lambda>a b. key a \<ge> key b) (js_sort (\<lambda>a b. key b - key a) xs)"
proof -
  have "sorted (map (\<lambda>x. - key x) (sort_key (\<lambda>x. - key x) xs))" by simp
  then show ?thesis by (simp add: js_sort_desc sorted_map)
qed


subsection \<open>Hotspot classification\<close>

lemma startsWith_prefix: "startsWith s p \<longleftrightarrow> prefix p s"
  by (metis startsWith_def take_is_prefix prefix_def append_eq_conv_conj)

lemma includes_str_sublist: "includes_str s p \<longleftrightarrow> sublist p s"
  by (induction s) (auto simp: startsWith_prefix sublist_Cons_right)

text \<open>
  Claim C6. The classifier returns exactly one of the three types: \<open>Native\<close> when the
  URL is empty, starts with \<open>native \<close>, or contains \<open>(native)\<close>,
  \<open>node_modules\<close> or \<open>internal/\<close>; otherwise \<open>App\<close> when the URL starts with
  \<open>http://\<close>, \<open>https://\<close> or \<open>file://\<close> or contains a slash or a backslash;
  otherwise \<open>Unknown\<close>. The native rules are tried first, so a URL that matches a
  native rule and an app rule is native. Prefix and containment are the library's
  \<open>prefix\<close> and \<open>sublist\<close>. The type of a hotspot is the classifier's value on the
  URL and name of its statistics record.
\<close>

theorem determineHotspotType_priority:
  "determineHotspotType u name =
     (if u = [] \<or> prefix ''native '' u \<or> sublist ''(native)'' u
         \<or> sublist ''node_modules'' u \<or> sublist ''internal/'' u then Native
      else if prefix ''http://'' u \<or> prefix ''https://'' u \<or> prefix ''file://'' u
              \<or> sublist ''/'' u \<or> sublist [CHR 0x5C] u then App
      else Unknown)
   \<and> hs_type (toHotspot stats) = determineHotspotType (fs_url stats) (fs_name stats)"
proof -
  have "hs_type (toHotspot stats) = determineHotspotType (fs_url stats) (fs_name stats)"
    by (simp add: toHotspot_def FunctionStats.defs Hotspot.defs)
  then show ?thesis
    unfolding determineHotspotType_def startsWith_prefix includes_str_sublist by simp
qed

subsection \<open>Critical paths\<close>






subsection \<open>The result of analyzeProfile\<close>

lemma analyzeProfile_SomeD:
  assumes "analyzeProfile fuel p opts = Some (Inr r)"
  obtains totalM rootNode rest tree where
    "computeTotalTime fuel (nodes p) (buildNodeMap (nodes p)) (selfTimes p) = Some totalM"
    "nodes p = rootNode # rest"
    "buildNode fuel (buildNodeMap (nodes p)) (selfTimes p) totalM (sumDeltas (timeDeltas p))
       (nid rootNode) = Some (Inr tree)"
    "r = \<lparr>totalTime = sumDeltas (timeDeltas p), totalSamples = length (samples p),
          sampleInterval = js_div (sumDeltas (timeDeltas p)) (real (length (samples p))),
          functionStats = aggregateFunctionStats (nodes p) (selfTimes p) totalM (hitCounts p)
                            (sumDeltas (timeDeltas p)) (buildNodeMap (nodes p)),
          callTree = tree,
          hotspots = extractHotspots
                       (aggregateFunctionStats (nodes p) (selfTimes p) totalM (hitCounts p)
                          (sumDeltas (timeDeltas p)) (buildNodeMap (nodes p)))
                       (thresholdOf opts) (maxHotspotsOf opts),
          criticalPaths = findCriticalPaths tree
                            (case maxPaths opts of None \<Rightarrow> 5 | Some m \<Rightarrow> m),
          ar_startTime = startTime p, ar_endTime = endTime p\<rparr>"
  using assms
  unfolding analyzeProfile_def Let_def selfTimes_def hitCounts_def thresholdOf_def
    maxHotspotsOf_def
  by (simp split: option.splits list.splits sum.splits)

lemma analyzeProfile_hotspots:
  assumes "analyzeProfile fuel p opts = Some (Inr r)"
  shows "hotspots r = extractHotspots (functionStats r) (thresholdOf opts) (maxHotspotsOf opts)"
  using assms by (elim analyzeProfile_SomeD) simp

lemma analyzeProfile_functionStats_eq:
  assumes "analyzeProfile fuel p opts1 = Some (Inr r1)"
    and "analyzeProfile fuel p opts2 = Some (Inr r2)"
  shows "functionStats r1 = functionStats r2"
  using assms
  by (auto simp: analyzeProfile_def Let_def split: option.splits list.splits sum.splits)

lemma aggregate_percent:
  assumes "s \<in> snd ` set (aggregateFunctionStats ns selfM totalM hitM T nm)"
  shows "fs_selfPercent s = (if T > 0 then fs_selfTime s / T * 100 else 0)"
  using assms by (auto simp: aggregateFunctionStats_def setPercent_def)

lemma analyzeProfile_percent:
  assumes "analyzeProfile fuel p opts = Some (Inr r)" and "s \<in> snd ` set (functionStats r)"
  shows "fs_selfPercent s = (if totalTime r > 0 then fs_selfTime s / totalTime r * 100 else 0)"
proof -
  from assms(1) obtain totalM where
    "functionStats r = aggregateFunctionStats (nodes p) (selfTimes p) totalM (hitCounts p)
                            (sumDeltas (timeDeltas p)) (buildNodeMap (nodes p))"
    "totalTime r = sumDeltas (timeDeltas p)"
    by (elim analyzeProfile_SomeD) simp
  with assms(2) aggregate_percent show ?thesis by metis
qed



text \<open>
  A result does not depend on the depth bound: a larger bound gives the same result.
\<close>

lemma sumChildren_fuel_Suc:
  assumes "\<And>i st r. computeNodeTotalTime f nm sm i st = Some r \<Longrightarrow>
             computeNodeTotalTime (Suc f) nm sm i st = Some r"
  shows "sumChildren f nm sm cs tot st = Some r \<Longrightarrow> sumChildren (Suc f) nm sm cs tot st = Some r"
proof (induction cs arbitrary: tot st)
  case Nil
  then show ?case by simp
next
  case (Cons c cs)
  from Cons.prems obtain t st1 where
    c1: "computeNodeTotalTime f nm sm c st = Some (t, st1)"
    and c2: "sumChildren f nm sm cs (tot + t) st1 = Some r"
    by (auto split: option.splits)
  from assms[OF c1] Cons.IH[OF c2] show ?case by simp
qed

lemma computeNodeTotalTime_Suc_enter:
  "i \<notin> visited \<Longrightarrow> nm i = Some node \<Longrightarrow>
   computeNodeTotalTime (Suc f) nm sm i (totalM, visited)
     = (case sumChildren f nm sm (case children node of None \<Rightarrow> [] | Some cs \<Rightarrow> cs)
               (or0 (sm i)) (totalM, insert i visited) of
          None \<Rightarrow> None
        | Some (tot, totalM', visited') \<Rightarrow> Some (tot, totalM'(i \<mapsto> tot), visited'))"
  by simp

lemma computeNodeTotalTime_fuel_Suc:
  "computeNodeTotalTime f nm sm i st = Some r \<Longrightarrow>
   computeNodeTotalTime (Suc f) nm sm i st = Some r"
proof (induction f arbitrary: i st r)
  case 0
  then show ?case by simp
next
  case (Suc f)
  obtain totalM visited where st: "st = (totalM, visited)" by (cases st)
  show ?case
  proof (cases "i \<in> visited")
    case True
    with Suc.prems show ?thesis by (simp add: st)
  next
    case False
    show ?thesis
    proof (cases "nm i")
      case None
      with False Suc.prems show ?thesis by (simp add: st)
    next
      case (Some node)
      let ?cs = "case children node of None \<Rightarrow> [] | Some cs \<Rightarrow> cs"
      let ?st1 = "(totalM, insert i visited)"
      note e1 = computeNodeTotalTime_Suc_enter[where nm=nm and i=i and node=node and visited=visited and f=f and sm=sm and totalM=totalM, OF False Some]
      note e2 = computeNodeTotalTime_Suc_enter[where nm=nm and i=i and node=node and visited=visited and f="Suc f" and sm=sm and totalM=totalM, OF False Some]
      from Suc.prems obtain q where
        q: "sumChildren f nm sm ?cs (or0 (sm i)) ?st1 = Some q"
        unfolding st e1 by (cases "sumChildren f nm sm ?cs (or0 (sm i)) ?st1") auto
      have q': "sumChildren (Suc f) nm sm ?cs (or0 (sm i)) ?st1 = Some q"
        by (rule sumChildren_fuel_Suc[OF _ q]) (rule Suc.IH)
      from Suc.prems show ?thesis
        unfolding st e1 e2 q q' .
    qed
  qed
qed

lemma computeAll_fuel_Suc:
  "computeAll f nm sm ns st = Some r \<Longrightarrow> computeAll (Suc f) nm sm ns st = Some r"
proof (induction ns arbitrary: st)
  case Nil
  then show ?case by simp
next
  case (Cons n ns)
  from Cons.prems obtain t st1 where
    c1: "computeNodeTotalTime f nm sm (nid n) st = Some (t, st1)"
    and c2: "computeAll f nm sm ns st1 = Some r"
    by (auto split: option.splits)
  from computeNodeTotalTime_fuel_Suc[OF c1] Cons.IH[OF c2] show ?case
    by (simp del: computeNodeTotalTime.simps)
qed

lemma computeTotalTime_fuel_Suc:
  assumes "computeTotalTime f ns nm sm = Some r"
  shows "computeTotalTime (Suc f) ns nm sm = Some r"
proof -
  from assms obtain st where st: "computeAll f nm sm ns (Map.empty, {}) = Some st"
    and r: "r = fst st"
    by (auto simp: computeTotalTime_def)
  from computeAll_fuel_Suc[OF st] r show ?thesis by (simp add: computeTotalTime_def)
qed

lemma mapResult_mono:
  assumes "\<And>x r. g x = Some r \<Longrightarrow> g' x = Some r"
  shows "mapResult g xs = Some r \<Longrightarrow> mapResult g' xs = Some r"
proof (induction xs arbitrary: r)
  case Nil
  then show ?case by simp
next
  case (Cons x xs)
  from Cons.prems obtain a where a: "g x = Some a" by (auto split: option.splits)
  show ?case
  proof (cases a)
    case (Inl e)
    with a Cons.prems assms[OF a] show ?thesis by simp
  next
    case (Inr y)
    with a Cons.prems obtain b where b: "mapResult g xs = Some b"
      by (auto split: option.splits)
    from Cons.IH[OF b] a b Inr Cons.prems assms[OF a] show ?thesis by simp
  qed
qed

lemma buildNode_Suc_children:
  "nm i = Some node \<Longrightarrow> children node = Some cs \<Longrightarrow>
   buildNode (Suc f) nm sm tm T i
     = (case mapResult (\<lambda>c. buildNode f nm sm tm T c) cs of
          None \<Rightarrow> None
        | Some (Inl e) \<Rightarrow> Some (Inl e)
        | Some (Inr ks) \<Rightarrow>
            Some (Inr (CallTreeNode (functionName (callFrame node)) (url (callFrame node))
                         (lineNumber (callFrame node)) (or0 (sm i)) (or0r (tm i))
                         (if T > 0 then or0 (sm i) / T * 100 else 0)
                         (if T > 0 then or0r (tm i) / T * 100 else 0)
                         (js_sort (\<lambda>a b. ct_totalTime b - ct_totalTime a) ks))))"
  by (simp add: Let_def)

lemma buildNode_fuel_Suc:
  "buildNode f nm sm tm T i = Some r \<Longrightarrow> buildNode (Suc f) nm sm tm T i = Some r"
proof (induction f arbitrary: i r)
  case 0
  then show ?case by simp
next
  case (Suc f)
  show ?case
  proof (cases "nm i")
    case None
    with Suc.prems show ?thesis by simp
  next
    case (Some node)
    note node = this
    show ?thesis
    proof (cases "children node")
      case None
      with node Suc.prems show ?thesis by (simp add: Let_def)
    next
      case (Some cs)
      note e1 = buildNode_Suc_children[where nm=nm and i=i and node=node and cs=cs and f=f and sm=sm and tm=tm and T=T, OF node Some]
      note e2 = buildNode_Suc_children[where nm=nm and i=i and node=node and cs=cs and f="Suc f" and sm=sm and tm=tm and T=T, OF node Some]
      from Suc.prems obtain b where
        b: "mapResult (\<lambda>c. buildNode f nm sm tm T c) cs = Some b"
        unfolding e1 by (cases "mapResult (\<lambda>c. buildNode f nm sm tm T c) cs") auto
      have b': "mapResult (\<lambda>c. buildNode (Suc f) nm sm tm T c) cs = Some b"
        by (rule mapResult_mono[OF _ b]) (rule Suc.IH)
      from Suc.prems show ?thesis
        unfolding e1 e2 b b' .
    qed
  qed
qed

lemma analyzeProfile_fuel_Suc:
  assumes "analyzeProfile f p opts = Some r"
  shows "analyzeProfile (Suc f) p opts = Some r"
proof -
  let ?nm = "buildNodeMap (nodes p)"
  let ?sm = "fst (attribute (samples p) (timeDeltas p) (Map.empty, Map.empty))"
  from assms obtain totalM where
    c: "computeTotalTime f (nodes p) ?nm ?sm = Some totalM"
    unfolding analyzeProfile_def Let_def by (auto split: option.splits)
  note c' = computeTotalTime_fuel_Suc[OF c]
  show ?thesis
  proof (cases "nodes p")
    case Nil
    with assms c c' show ?thesis unfolding analyzeProfile_def Let_def by simp
  next
    case (Cons rootNode rest)
    with assms c obtain b where
      b: "buildNode f ?nm ?sm totalM (sumDeltas (timeDeltas p)) (nid rootNode) = Some b"
      unfolding analyzeProfile_def Let_def by (auto split: option.splits)
    note b' = buildNode_fuel_Suc[OF b]
    from assms c c' b b' show ?thesis
      unfolding analyzeProfile_def Let_def Cons
      by (simp del: buildNode.simps)
  qed
qed

lemma analyzeProfile_fuel_mono:
  "f \<le> f' \<Longrightarrow> analyzeProfile f p opts = Some r \<Longrightarrow> analyzeProfile f' p opts = Some r"
proof (induction rule: dec_induct)
  case base
  then show ?case .
next
  case (step n)
  then show ?case by (simp add: analyzeProfile_fuel_Suc)
qed

subsection \<open>Hotspots\<close>

lemma toHotspot_selfTime [simp]: "fs_selfTime (toHotspot s) = fs_selfTime s"
  by (simp add: toHotspot_def FunctionStats.defs Hotspot.defs)

lemma toHotspot_selfPercent [simp]: "fs_selfPercent (toHotspot s) = fs_selfPercent s"
  by (simp add: toHotspot_def FunctionStats.defs Hotspot.defs)

lemma filter_take_prefix: "prefix (filter P (take n xs)) (filter P xs)"
  by (metis append_take_drop_id filter_append prefixI)

lemma filter_js_slice0_prefix: "prefix (filter P (js_slice0 xs n)) (filter P xs)"
  by (simp add: js_slice0_def filter_take_prefix)

lemma js_sort_stable:
  "filter (\<lambda>y. key y = v) (js_sort (\<lambda>a b. key b - key a) xs) = filter (\<lambda>y. key y = v) xs"
  using sort_key_stable[of "\<lambda>x. - key x" "- v" xs] by (simp add: js_sort_desc)

lemma set_js_sort: "set (js_sort (\<lambda>a b. key b - key a) xs) = set xs"
  by (simp add: js_sort_desc)

lemma extractHotspots_props:
  "(\<forall>h \<in> set (extractHotspots fstats t m). fs_selfPercent h \<ge> t)
   \<and> sorted_wrt (\<lambda>a b. fs_selfTime a \<ge> fs_selfTime b) (extractHotspots fstats t m)
   \<and> (\<forall>v. prefix (filter (\<lambda>h. fs_selfTime h = v) (extractHotspots fstats t m))
             (map toHotspot (filter (\<lambda>s. fs_selfTime s = v)
                (filter (\<lambda>s. fs_selfPercent s \<ge> t) (map snd fstats)))))
   \<and> (0 \<le> m \<longrightarrow> int (length (extractHotspots fstats t m)) \<le> m)"
proof -
  let ?flt = "filter (\<lambda>s. fs_selfPercent s \<ge> t) (map snd fstats)"
  let ?srt = "js_sort (\<lambda>a b. fs_selfTime b - fs_selfTime a) ?flt"
  have eq: "extractHotspots fstats t m = map toHotspot (js_slice0 ?srt m)"
    by (simp add: extractHotspots_def)
  have a: "\<forall>h \<in> set (extractHotspots fstats t m). fs_selfPercent h \<ge> t"
  proof
    fix h assume "h \<in> set (extractHotspots fstats t m)"
    then obtain s where s: "s \<in> set (js_slice0 ?srt m)" "h = toHotspot s"
      unfolding eq by auto
    from s(1) set_js_slice0[of ?srt m] have "s \<in> set ?flt" by (auto simp: set_js_sort)
    with s(2) show "fs_selfPercent h \<ge> t" by simp
  qed
  have "sorted_wrt (\<lambda>a b. fs_selfTime a \<ge> fs_selfTime b) (js_slice0 ?srt m)"
    by (rule sorted_wrt_js_slice0, rule sorted_desc_js_sort)
  then have b: "sorted_wrt (\<lambda>a b. fs_selfTime a \<ge> fs_selfTime b) (extractHotspots fstats t m)"
    unfolding eq by (simp add: sorted_wrt_map)
  have c: "\<forall>v. prefix (filter (\<lambda>h. fs_selfTime h = v) (extractHotspots fstats t m))
             (map toHotspot (filter (\<lambda>s. fs_selfTime s = v) ?flt))"
  proof
    fix v
    have "filter (\<lambda>h. fs_selfTime h = v) (extractHotspots fstats t m)
          = map toHotspot (filter (\<lambda>s. fs_selfTime s = v) (js_slice0 ?srt m))"
      unfolding eq by (simp add: filter_map comp_def)
    moreover have "prefix (filter (\<lambda>s. fs_selfTime s = v) (js_slice0 ?srt m))
                      (filter (\<lambda>s. fs_selfTime s = v) ?srt)"
      by (rule filter_js_slice0_prefix)
    moreover have "filter (\<lambda>s. fs_selfTime s = v) ?srt = filter (\<lambda>s. fs_selfTime s = v) ?flt"
      by (rule js_sort_stable)
    ultimately show "prefix (filter (\<lambda>h. fs_selfTime h = v) (extractHotspots fstats t m))
             (map toHotspot (filter (\<lambda>s. fs_selfTime s = v) ?flt))"
      by (simp add: map_mono_prefix)
  qed
  have d: "0 \<le> m \<longrightarrow> int (length (extractHotspots fstats t m)) \<le> m"
    unfolding eq by (simp add: length_js_slice0)
  from a b c d show ?thesis by blast
qed

text \<open>
  Claim C4. In the result of \<open>analyzeProfile\<close>, every hotspot has a self percentage of at
  least the threshold of the options (1.0 when none is given); the list is sorted
  descending by self time; for every self time value, the hotspots with that value are
  an initial part of the statistics records with that value that pass the threshold, in
  the iteration order of the statistics map (ties keep their order); and the list has at
  most \<open>maxHotspots\<close> entries (20 when none is given) when that number is not negative.
\<close>

theorem hotspots_filtered_sorted_bounded:
  assumes "analyzeProfile fuel p opts = Some (Inr r)"
  shows "(\<forall>h \<in> set (hotspots r). fs_selfPercent h \<ge> thresholdOf opts)
   \<and> sorted_wrt (\<lambda>a b. fs_selfTime a \<ge> fs_selfTime b) (hotspots r)
   \<and> (\<forall>v. prefix (filter (\<lambda>h. fs_selfTime h = v) (hotspots r))
             (map toHotspot (filter (\<lambda>s. fs_selfTime s = v)
                (filter (\<lambda>s. fs_selfPercent s \<ge> thresholdOf opts)
                   (map snd (functionStats r))))))
   \<and> (0 \<le> maxHotspotsOf opts \<longrightarrow> int (length (hotspots r)) \<le> maxHotspotsOf opts)"
  unfolding analyzeProfile_hotspots[OF assms] by (rule extractHotspots_props)

theorem hotspots_filtered_sorted_bounded_witness:
  "\<exists>r. analyzeProfile 5 ex_profile (ex_opts None) = Some (Inr r)
       \<and> 0 \<le> maxHotspotsOf (ex_opts None)
       \<and> (\<forall>h \<in> set (hotspots r). fs_selfPercent h \<ge> 1)
       \<and> int (length (hotspots r)) \<le> 20
       \<and> map fs_key (hotspots r) = [''A@app.js:1:0'', ''B@app.js:1:0'', ''C@app.js:1:0'']"
proof -
  have "case analyzeProfile 5 ex_profile (ex_opts None) of
          Some (Inr r) \<Rightarrow>
            map fs_key (hotspots r) = [''A@app.js:1:0'', ''B@app.js:1:0'', ''C@app.js:1:0'']
        | _ \<Rightarrow> False"
    by code_simp
  then obtain r where r: "analyzeProfile 5 ex_profile (ex_opts None) = Some (Inr r)"
    and k: "map fs_key (hotspots r) = [''A@app.js:1:0'', ''B@app.js:1:0'', ''C@app.js:1:0'']"
    by (auto split: option.splits sum.splits)
  have m: "maxHotspotsOf (ex_opts None) = 20" and t: "thresholdOf (ex_opts None) = 1"
    by (simp_all add: maxHotspotsOf_def thresholdOf_def ex_opts_def)
  from hotspots_filtered_sorted_bounded[OF r] r k m t show ?thesis by auto
qed

lemma sorted_wrt_filter_takeWhile:
  assumes "sorted_wrt R xs"
    and "\<And>a b. a \<in> set xs \<Longrightarrow> b \<in> set xs \<Longrightarrow> R a b \<Longrightarrow> P b \<Longrightarrow> P a"
  shows "filter P xs = takeWhile P xs"
  using assms
proof (induction xs)
  case Nil
  then show ?case by simp
next
  case (Cons x xs)
  show ?case
  proof (cases "P x")
    case True
    have "filter P xs = takeWhile P xs"
      using Cons.prems by (intro Cons.IH) auto
    with True show ?thesis by simp
  next
    case False
    have "\<forall>b \<in> set xs. \<not> P b"
    proof
      fix b assume b: "b \<in> set xs"
      with Cons.prems(1) have "R x b" by simp
      with Cons.prems(2)[of x b] b False show "\<not> P b" by auto
    qed
    with False show ?thesis by (simp add: filter_empty_conv)
  qed
qed

lemma js_slice0_prefix_mono:
  assumes "prefix A B"
  shows "set (js_slice0 A m) \<subseteq> set (js_slice0 B m)"
proof -
  from assms obtain C where B: "B = A @ C" by (auto simp: prefix_def)
  show ?thesis
  proof (cases "m < 0")
    case True
    have "take (nat (int (length A) + m)) A = take (nat (int (length A) + m)) B"
      using True by (simp add: B)
    moreover have "set (take (nat (int (length A) + m)) B)
        \<subseteq> set (take (nat (int (length B) + m)) B)"
      by (rule set_take_subset_set_take) (simp add: B)
    ultimately show ?thesis using True by (simp add: js_slice0_def)
  next
    case False
    have "set (take (nat m) A) \<subseteq> set (take (nat m) B)"
      by (auto simp: B)
    with False show ?thesis by (simp add: js_slice0_def)
  qed
qed

lemma extractHotspots_mono:
  assumes le: "t2 \<le> t1"
    and pct: "\<And>s. s \<in> snd ` set fstats \<Longrightarrow>
                fs_selfPercent s = (if T > 0 then fs_selfTime s / T * 100 else 0)"
  shows "set (extractHotspots fstats t1 m) \<subseteq> set (extractHotspots fstats t2 m)"
proof -
  let ?xs = "map snd fstats"
  let ?P1 = "\<lambda>s. fs_selfPercent s \<ge> t1"
  let ?P2 = "\<lambda>s. fs_selfPercent s \<ge> t2"
  let ?key = "\<lambda>x. - fs_selfTime x"
  let ?s1 = "sort_key ?key (filter ?P1 ?xs)"
  let ?s2 = "sort_key ?key (filter ?P2 ?xs)"
  have "filter ?P1 (filter ?P2 ?xs) = filter ?P1 ?xs"
    using le by (auto intro!: filter_cong)
  then have f: "filter ?P1 ?s2 = ?s1" by (simp add: filter_sort)
  have srt: "sorted_wrt (\<lambda>a b. fs_selfTime a \<ge> fs_selfTime b) ?s2"
    using sorted_desc_js_sort[of fs_selfTime "filter ?P2 ?xs"] by (simp add: js_sort_desc)
  have "filter ?P1 ?s2 = takeWhile ?P1 ?s2"
  proof (rule sorted_wrt_filter_takeWhile[OF srt])
    fix a b
    assume a: "a \<in> set ?s2" and b: "b \<in> set ?s2"
      and ab: "fs_selfTime b \<le> fs_selfTime a" and Pb: "t1 \<le> fs_selfPercent b"
    from a b have "a \<in> snd ` set fstats" "b \<in> snd ` set fstats" by auto
    with pct have pa: "fs_selfPercent a = (if T > 0 then fs_selfTime a / T * 100 else 0)"
      and pb: "fs_selfPercent b = (if T > 0 then fs_selfTime b / T * 100 else 0)" by auto
    show "t1 \<le> fs_selfPercent a"
    proof (cases "T > 0")
      case True
      with ab have "fs_selfTime b / T * 100 \<le> fs_selfTime a / T * 100"
        by (simp add: divide_right_mono)
      with True pa pb Pb show ?thesis by simp
    next
      case False
      with pa pb Pb show ?thesis by simp
    qed
  qed
  with f have "?s1 = takeWhile ?P1 ?s2" by simp
  then have "prefix ?s1 ?s2" by (metis takeWhile_is_prefix)
  then have "set (js_slice0 ?s1 m) \<subseteq> set (js_slice0 ?s2 m)" by (rule js_slice0_prefix_mono)
  then show ?thesis
    unfolding extractHotspots_def js_sort_desc by auto
qed

text \<open>
  Claim C5. For one profile and one \<open>maxHotspots\<close>, lowering the threshold never removes
  a hotspot: every hotspot of the run with the higher threshold is a hotspot of the run
  with the lower threshold.
\<close>

theorem hotspots_threshold_monotone:
  assumes "thresholdOf opts2 \<le> thresholdOf opts1"
    and "maxHotspotsOf opts1 = maxHotspotsOf opts2"
    and "analyzeProfile fuel1 p opts1 = Some (Inr r1)"
    and "analyzeProfile fuel2 p opts2 = Some (Inr r2)"
  shows "set (hotspots r1) \<subseteq> set (hotspots r2)"
proof -
  let ?fuel = "max fuel1 fuel2"
  have a1: "analyzeProfile ?fuel p opts1 = Some (Inr r1)"
    by (rule analyzeProfile_fuel_mono[OF _ assms(3)]) simp
  have a2: "analyzeProfile ?fuel p opts2 = Some (Inr r2)"
    by (rule analyzeProfile_fuel_mono[OF _ assms(4)]) simp
  have fs: "functionStats r1 = functionStats r2"
    using a1 a2 by (rule analyzeProfile_functionStats_eq)
  have "set (extractHotspots (functionStats r2) (thresholdOf opts1) (maxHotspotsOf opts2))
      \<subseteq> set (extractHotspots (functionStats r2) (thresholdOf opts2) (maxHotspotsOf opts2))"
    using assms(1) analyzeProfile_percent[OF a2]
    by (rule extractHotspots_mono)
  then show ?thesis
    using analyzeProfile_hotspots[OF a1] analyzeProfile_hotspots[OF a2] fs assms(2)
    by simp
qed

theorem hotspots_threshold_monotone_witness:
  "\<exists>r1 r2. analyzeProfile 5 ex_profile (ex_opts (Some 50)) = Some (Inr r1)
       \<and> analyzeProfile 5 ex_profile (ex_opts (Some 5)) = Some (Inr r2)
       \<and> thresholdOf (ex_opts (Some 5)) \<le> thresholdOf (ex_opts (Some 50))
       \<and> set (hotspots r1) \<subseteq> set (hotspots r2)
       \<and> map fs_key (hotspots r1) = [''A@app.js:1:0'']
       \<and> map fs_key (hotspots r2) = [''A@app.js:1:0'', ''B@app.js:1:0'', ''C@app.js:1:0'']"
proof -
  have "case analyzeProfile 5 ex_profile (ex_opts (Some 50)) of
          Some (Inr r) \<Rightarrow> map fs_key (hotspots r) = [''A@app.js:1:0'']
        | _ \<Rightarrow> False"
    by code_simp
  then obtain r1 where r1: "analyzeProfile 5 ex_profile (ex_opts (Some 50)) = Some (Inr r1)"
    and k1: "map fs_key (hotspots r1) = [''A@app.js:1:0'']"
    by (auto split: option.splits sum.splits)
  have "case analyzeProfile 5 ex_profile (ex_opts (Some 5)) of
          Some (Inr r) \<Rightarrow>
            map fs_key (hotspots r) = [''A@app.js:1:0'', ''B@app.js:1:0'', ''C@app.js:1:0'']
        | _ \<Rightarrow> False"
    by code_simp
  then obtain r2 where r2: "analyzeProfile 5 ex_profile (ex_opts (Some 5)) = Some (Inr r2)"
    and k2: "map fs_key (hotspots r2) = [''A@app.js:1:0'', ''B@app.js:1:0'', ''C@app.js:1:0'']"
    by (auto split: option.splits sum.splits)
  have t: "thresholdOf (ex_opts (Some 5)) \<le> thresholdOf (ex_opts (Some 50))"
    and m: "maxHotspotsOf (ex_opts (Some 50)) = maxHotspotsOf (ex_opts (Some 5))"
    by (simp_all add: maxHotspotsOf_def thresholdOf_def ex_opts_def)
  have "analyzeProfile 5 ex_profile (ex_opts (Some 50)) = Some (Inr r1)
       \<and> analyzeProfile 5 ex_profile (ex_opts (Some 5)) = Some (Inr r2)
       \<and> thresholdOf (ex_opts (Some 5)) \<le> thresholdOf (ex_opts (Some 50))
       \<and> set (hotspots r1) \<subseteq> set (hotspots r2)
       \<and> map fs_key (hotspots r1) = [''A@app.js:1:0'']
       \<and> map fs_key (hotspots r2) = [''A@app.js:1:0'', ''B@app.js:1:0'', ''C@app.js:1:0'']"
    using hotspots_threshold_monotone[OF t m r1 r2] r1 r2 k1 k2 t by simp
  then show ?thesis by - (rule exI, rule exI, assumption)
qed

subsection \<open>Self time\<close>













subsection \<open>Total time\<close>

lemma step_ok_refl: "step_ok nm st st"
  by (auto simp: step_ok_def)

lemma step_ok_trans: "step_ok nm a b \<Longrightarrow> step_ok nm b c \<Longrightarrow> step_ok nm a c"
  unfolding step_ok_def by blast

lemma card_unvisited_mono:
  "finite (dom nm) \<Longrightarrow> step_ok nm st st' \<Longrightarrow> card (dom nm - snd st') \<le> card (dom nm - snd st)"
  unfolding step_ok_def by (intro card_mono) auto

lemma sumChildren_terminates:
  assumes fin: "finite (dom nm)"
    and cmp: "\<And>i st. card (dom nm - snd st) < fuel \<Longrightarrow>
               \<exists>t st'. computeNodeTotalTime fuel nm selfM i st = Some (t, st')
                        \<and> step_ok nm st st' \<and> i \<in> snd st'"
  shows "card (dom nm - snd st) < fuel \<Longrightarrow>
         \<exists>t st'. sumChildren fuel nm selfM cs tot st = Some (t, st')
                  \<and> step_ok nm st st' \<and> set cs \<subseteq> snd st'"
proof (induction cs arbitrary: tot st)
  case Nil
  then show ?case by (simp add: step_ok_refl)
next
  case (Cons c cs)
  from cmp[OF Cons.prems, of c] obtain t1 st1 where
    c1: "computeNodeTotalTime fuel nm selfM c st = Some (t1, st1)"
    and ok1: "step_ok nm st st1" and in1: "c \<in> snd st1" by blast
  from card_unvisited_mono[OF fin ok1] Cons.prems have "card (dom nm - snd st1) < fuel" by simp
  from Cons.IH[OF this, of "tot + t1"] obtain t st' where
    c2: "sumChildren fuel nm selfM cs (tot + t1) st1 = Some (t, st')"
    and ok2: "step_ok nm st1 st'" and in2: "set cs \<subseteq> snd st'" by blast
  from ok2 in1 have "c \<in> snd st'" by (auto simp: step_ok_def)
  with c1 c2 in2 step_ok_trans[OF ok1 ok2] show ?case by simp
qed

lemma computeNodeTotalTime_terminates:
  assumes fin: "finite (dom nm)"
  shows "card (dom nm - snd st) < fuel \<Longrightarrow>
         \<exists>t st'. computeNodeTotalTime fuel nm selfM i st = Some (t, st')
                  \<and> step_ok nm st st' \<and> i \<in> snd st'"
proof (induction fuel arbitrary: i st)
  case 0
  then show ?case by simp
next
  case (Suc fuel)
  obtain totalM visited where st: "st = (totalM, visited)" by (cases st)
  show ?case
  proof (cases "i \<in> visited")
    case True
    then show ?thesis by (simp add: st step_ok_refl)
  next
    case False
    note unvisited = this
    show ?thesis
    proof (cases "nm i")
      case None
      with unvisited show ?thesis by (auto simp: st step_ok_def)
    next
      case (Some node)
      let ?st1 = "(totalM, insert i visited)"
      have "dom nm - insert i visited = (dom nm - visited) - {i}" by auto
      moreover have "i \<in> dom nm - visited" using Some unvisited by auto
      moreover have "finite (dom nm - visited)" using fin by simp
      ultimately have "card (dom nm - insert i visited) < card (dom nm - visited)"
        by (metis card_Diff1_less)
      with Suc.prems have small: "card (dom nm - snd ?st1) < fuel" by (simp add: st)
      from sumChildren_terminates[OF fin Suc.IH small,
          of "case children node of None \<Rightarrow> [] | Some cs \<Rightarrow> cs" "or0 (selfM i)"]
      obtain t st2 where
        s: "sumChildren fuel nm selfM (case children node of None \<Rightarrow> [] | Some cs \<Rightarrow> cs)
              (or0 (selfM i)) ?st1 = Some (t, st2)"
        and ok: "step_ok nm ?st1 st2" by blast
      obtain totalM2 visited2 where st2: "st2 = (totalM2, visited2)" by (cases st2)
      have "step_ok nm st (totalM2(i \<mapsto> t), visited2)"
        using ok Some unvisited unfolding step_ok_def st st2 by auto
      moreover have "i \<in> visited2" using ok unfolding step_ok_def st2 by auto
      ultimately show ?thesis using unvisited Some s by (simp add: st st2)
    qed
  qed
qed

lemma computeAll_terminates:
  assumes fin: "finite (dom nm)"
  shows "card (dom nm - snd st) < fuel \<Longrightarrow>
         \<exists>st'. computeAll fuel nm selfM ns st = Some st'
                \<and> step_ok nm st st' \<and> nid ` set ns \<subseteq> snd st'"
proof (induction ns arbitrary: st)
  case Nil
  then show ?case by (simp add: step_ok_refl)
next
  case (Cons n ns)
  from computeNodeTotalTime_terminates[OF fin Cons.prems, of selfM "nid n"] obtain t1 st1 where
    c1: "computeNodeTotalTime fuel nm selfM (nid n) st = Some (t1, st1)"
    and ok1: "step_ok nm st st1" and in1: "nid n \<in> snd st1" by blast
  from card_unvisited_mono[OF fin ok1] Cons.prems have "card (dom nm - snd st1) < fuel" by simp
  from Cons.IH[OF this] obtain st' where
    c2: "computeAll fuel nm selfM ns st1 = Some st'"
    and ok2: "step_ok nm st1 st'" and in2: "nid ` set ns \<subseteq> snd st'" by blast
  from ok2 in1 have "nid n \<in> snd st'" by (auto simp: step_ok_def)
  with c1 c2 in2 step_ok_trans[OF ok1 ok2] show ?case by simp
qed

lemma buildNodeMap_map_of: "buildNodeMap ns = map_of (rev (map (\<lambda>n. (nid n, n)) ns))"
proof -
  have "foldl (\<lambda>m node. m(nid node \<mapsto> node)) m0 ns
        = m0 ++ map_of (rev (map (\<lambda>n. (nid n, n)) ns))" for m0
    by (induction ns arbitrary: m0) (simp_all add: map_add_upd_left map_add_def fun_eq_iff split: option.splits)
  then show ?thesis by (simp add: buildNodeMap_def)
qed

lemma dom_buildNodeMap: "dom (buildNodeMap ns) = nid ` set ns"
  by (force simp: buildNodeMap_map_of dom_map_of_conv_image_fst)















lemma sumChildren_visited:
  assumes "\<And>i st t st'. computeNodeTotalTime f nm sm i st = Some (t, st') \<Longrightarrow>
             snd st \<subseteq> snd st' \<and> i \<in> snd st'"
  shows "sumChildren f nm sm cs tot st = Some (t, st') \<Longrightarrow> snd st \<subseteq> snd st'"
proof (induction cs arbitrary: tot st)
  case Nil
  then show ?case by simp
next
  case (Cons c cs)
  from Cons.prems obtain t1 st1 where
    c1: "computeNodeTotalTime f nm sm c st = Some (t1, st1)"
    and c2: "sumChildren f nm sm cs (tot + t1) st1 = Some (t, st')"
    by (auto split: option.splits)
  from assms[OF c1] Cons.IH[OF c2] show ?case by auto
qed

lemma computeNodeTotalTime_visited:
  "computeNodeTotalTime f nm sm i st = Some (t, st') \<Longrightarrow> snd st \<subseteq> snd st' \<and> i \<in> snd st'"
proof (induction f arbitrary: i st t st')
  case 0
  then show ?case by simp
next
  case (Suc f)
  obtain totalM visited where st: "st = (totalM, visited)" by (cases st)
  show ?case
  proof (cases "i \<in> visited")
    case True
    with Suc.prems show ?thesis by (auto simp: st)
  next
    case False
    show ?thesis
    proof (cases "nm i")
      case None
      with False Suc.prems show ?thesis by (auto simp: st)
    next
      case (Some node)
      from Suc.prems False Some obtain tot st2 where
        s: "sumChildren f nm sm (case children node of None \<Rightarrow> [] | Some cs \<Rightarrow> cs)
              (or0 (sm i)) (totalM, insert i visited) = Some (tot, st2)"
        and v: "snd st' = snd st2"
        by (auto simp: st split: option.splits)
      from sumChildren_visited[OF Suc.IH s] v show ?thesis by (auto simp: st)
    qed
  qed
qed

lemma computeTotalTime_terminates:
  assumes len: "length ns < fuel"
  shows "\<exists>totalM. computeTotalTime fuel ns (buildNodeMap ns) selfM = Some totalM
                \<and> dom totalM = nid ` set ns"
proof -
  let ?nm = "buildNodeMap ns"
  have fin: "finite (dom ?nm)" by (simp add: dom_buildNodeMap)
  have "card (nid ` set ns) \<le> length ns"
    by (metis card_image_le card_length le_trans List.finite_set)
  with len have "card (dom ?nm - snd (Map.empty :: totalTimeMap, {} :: int set)) < fuel"
    by (simp add: dom_buildNodeMap)
  from computeAll_terminates[OF fin this, of selfM ns] obtain st' where
    c: "computeAll fuel ?nm selfM ns (Map.empty, {}) = Some st'"
    and ok: "step_ok ?nm (Map.empty, {}) st'" and vis: "nid ` set ns \<subseteq> snd st'" by blast
  from ok vis have "dom (fst st') = nid ` set ns"
    by (auto simp: step_ok_def dom_buildNodeMap)
  with c show ?thesis by (simp add: computeTotalTime_def)
qed

text \<open>
  Claim C10. For every node table, also one whose child ids form cycles or are shared,
  \<open>computeTotalTime\<close> returns as soon as the depth bound exceeds the number of nodes,
  and the map it returns has an entry for exactly the ids of the table. Every call that
  returns leaves its node id visited and removes no id from \<open>visited\<close>, and a call on a
  visited id returns the stored value and leaves both structures unchanged, so a node is
  entered at most once.
\<close>

theorem computeTotalTime_total:
  "(length ns < fuel \<longrightarrow>
      (\<exists>totalM. computeTotalTime fuel ns (buildNodeMap ns) selfM = Some totalM
                \<and> dom totalM = nid ` set ns))
   \<and> (computeNodeTotalTime k' nm selfM' j st = Some (t, st') \<longrightarrow>
        snd st \<subseteq> snd st' \<and> j \<in> snd st')
   \<and> (i \<in> visited \<longrightarrow>
        computeNodeTotalTime (Suc k) nm selfM' i (tm, visited)
          = Some (or0r (tm i), tm, visited))"
  using computeTotalTime_terminates[of ns fuel selfM]
    computeNodeTotalTime_visited[of k' nm selfM' j st t st']
  by simp

theorem computeTotalTime_total_witness:
  "length ex_cyclic < 4
   \<and> (\<exists>totalM. computeTotalTime 4 ex_cyclic (buildNodeMap ex_cyclic) Map.empty = Some totalM
                \<and> dom totalM = {1, 2, 3})
   \<and> computeNodeTotalTime (Suc 0) Map.empty Map.empty 5 (Map.empty, {})
        = Some (0, Map.empty, {5})
   \<and> (1::int) \<in> {1}
   \<and> computeNodeTotalTime (Suc 0) Map.empty Map.empty 1 (Map.empty, {1})
        = Some (0, Map.empty, {1})"
  using computeTotalTime_total[where ns=ex_cyclic and fuel=4 and selfM=Map.empty and i=1
      and visited="{1}" and k=0 and nm=Map.empty and selfM'=Map.empty and tm=Map.empty
      and k'="Suc 0" and j=5 and st="(Map.empty, {})" and t=0 and st'="(Map.empty, {5})"]
  by (simp add: ex_cyclic_def ex_node_def)









subsection \<open>Validation\<close>













subsection \<open>Legacy input and empty profiles\<close>

text \<open>
  Claim C3 on the code. For the legacy record with one child, the normalized table holds
  the same nodes as for the flat table, with the root last, because the linearizer pushes
  a node after its children. \<open>analyzeProfile\<close> takes the first node as the root, so the
  call tree and the critical paths of the legacy input are those of the leaf alone.
\<close>

theorem legacy_root_is_last:
  "map nid (nodes (normalizeHead ex_head [2, 2] [10, 10] None None)) = [2, 1]
   \<and> map nid (nodes (normalizeNodes ex_flat [2, 2] [10, 10] None None)) = [1, 2]
   \<and> set (nodes (normalizeHead ex_head [2, 2] [10, 10] None None))
       = set (nodes (normalizeNodes ex_flat [2, 2] [10, 10] None None))
   \<and> map_option (map_sum id callTree)
        (analyzeProfile 3 (normalizeHead ex_head [2, 2] [10, 10] None None) (ex_opts None))
       = Some (Inr (CallTreeNode ''A'' ''app.js'' 1 20 20 100 100 []))
   \<and> map_option (map_sum id callTree)
        (analyzeProfile 3 (normalizeNodes ex_flat [2, 2] [10, 10] None None) (ex_opts None))
       = Some (Inr (CallTreeNode ''(root)'' [] 0 0 20 0 100
                      [CallTreeNode ''A'' ''app.js'' 1 20 20 100 100 []]))
   \<and> map_option (map_sum id (map (map pn_name \<circ> cp_path) \<circ> criticalPaths))
        (analyzeProfile 3 (normalizeHead ex_head [2, 2] [10, 10] None None) (ex_opts None))
       = Some (Inr [[''A'']])
   \<and> map_option (map_sum id (map (map pn_name \<circ> cp_path) \<circ> criticalPaths))
        (analyzeProfile 3 (normalizeNodes ex_flat [2, 2] [10, 10] None None) (ex_opts None))
       = Some (Inr [[''(root)'', ''A'']])"
  by code_simp

text \<open>
  Claim C9 on the code. For the scenario's node table without samples, the analysis
  returns; total time, sample count and all percentages are zero and the hotspot list is
  empty, but the mean sample interval is \<open>0 / 0\<close>, which is NaN.
\<close>

theorem empty_samples_interval_nan:
  "map_option (map_sum id
       (\<lambda>r. (totalTime r, totalSamples r, sampleInterval r, hotspots r,
             map cumulativePercent (criticalPaths r),
             map (fs_selfPercent \<circ> snd) (functionStats r))))
     (analyzeProfile 5 ex_empty (ex_opts None))
   = Some (Inr (0, 0, QNaN, [], [0, 0], [0, 0, 0, 0]))"
  by code_simp

end
